theory Spec2Isabelle
  imports Main "HOL-Library.Word"
begin

section \<open>Ardu Bird: the game core of the sketch\<close>

text \<open>
  The sketch keeps the whole game in global variables and updates them from \<open>loop()\<close>.
  The model collects the globals in one record and turns every function of the sketch
  that touches them into a function on that record; a loop of the sketch is a
  recursive function over its index, and the body of a loop that does more than one
  assignment is a function of its own.

  Numbers. The positions, the velocity and the score are C++ \<open>int\<close>s, which have 16
  bits on the board of the sketch, and the highscores are \<open>long\<close>s. In a long game the
  positions of the pipes and the score leave the range of 16 bits, and \<open>movePipes\<close>
  writes out what becomes of them. The sum that places a pipe anew is a \<open>long\<close>,
  because \<open>random\<close> returns one, and the assignment narrows it to \<open>int\<close>: it keeps the
  low 16 bits (\<open>to_int16\<close>). The other sums and differences of \<open>movePipes\<close> are
  computed in \<open>int\<close>; C++ gives them no meaning when they leave the range, and the model
  takes the result of the processor, which keeps the low 16 bits as well. Everywhere
  else the numbers stay within the range, and the model computes on the integers as
  they are: the position and the velocity of the player stay between \<open>-50\<close> and 689
  in every game (\<open>run_bird_range\<close> below); \<open>checkCollision\<close> adds \<open>PIPE_WIDTH\<close> only to
  a position below 170 and \<open>PIPE_GAP\<close> to a height, which is below 240; \<open>resetGame\<close>
  assigns numbers below 3000; \<open>saveHighscores\<close> only compares and copies. The velocity
  is declared \<open>float\<close>, but it only ever holds the integers that the sketch assigns or
  adds (0, \<open>JUMP_STRENGTH\<close>, \<open>GRAVITY\<close> and the limits of \<open>constrain\<close>), so it is an
  integer here as well. The clock of \<open>millis()\<close> is an \<open>unsigned long\<close>, whose
  subtraction wraps around: it is a 32-bit word.

  Environment. The clock, the push button and the random source belong to the Arduino
  core; their readings are parameters of the functions that take them. Drawing is left
  out: it reads the game state and writes only the display and the two variables that
  make the new entry of the highscore screen blink.
\<close>

subsection \<open>Constants\<close>

definition SCREEN_WIDTH :: int where "SCREEN_WIDTH = 128"
definition SCREEN_HEIGHT :: int where "SCREEN_HEIGHT = 64"
definition SCALE_FACTOR :: int where "SCALE_FACTOR = 10"
definition GRAVITY :: int where "GRAVITY = 5"
definition JUMP_STRENGTH :: int where "JUMP_STRENGTH = - 25"
definition PIPE_WIDTH :: int where "PIPE_WIDTH = 15 * SCALE_FACTOR"
definition PIPE_GAP :: int where "PIPE_GAP = 30 * SCALE_FACTOR"
definition PIPE_SPEED :: int where "PIPE_SPEED = 10"
definition PIPE_SPACING :: int where "PIPE_SPACING = 65 * SCALE_FACTOR"
definition MAX_PIPES :: nat where "MAX_PIPES = 3"
definition FRAME_TIME :: "32 word" where "FRAME_TIME = 40"

subsection \<open>Game state\<close>

datatype GameState = STARTSCREEN | HIGHSCORE | PLAYING

record Pipe =
  x :: int
  height :: int

record game =
  birdY :: int
  velocity :: int
  gameOver :: bool
  score :: int
  frameCounter :: "32 word"
  gameOverTime :: "32 word"
  gameState :: GameState
  pipes :: "Pipe list"
  highscores :: "int list"
  newHighscoreIndex :: int
  highscoreTime :: "32 word"
  lastFrameTime :: "32 word"

subsection \<open>Highscore list: \<open>saveHighscores\<close>\<close>

text \<open>
  The inner loop \<open>for (j = 4; j > i; j--) highscores[j] = highscores[j - 1]\<close>,
  started at \<open>j\<close>.
\<close>

function shiftDown :: "int list \<Rightarrow> nat \<Rightarrow> nat \<Rightarrow> int list" where
  "shiftDown hs i j = (if j > i then shiftDown (hs[j := hs ! (j - 1)]) i (j - 1) else hs)"
  by pat_completeness auto
termination
  by (relation "measure (\<lambda>(hs, i, j). j)") auto

declare shiftDown.simps [simp del]

text \<open>
  The outer loop \<open>for (i = 0; i < 5; i++)\<close>, started at \<open>i\<close>, with its \<open>break\<close> after
  the first insertion.
\<close>

function saveLoop :: "int \<Rightarrow> nat \<Rightarrow> game \<Rightarrow> game" where
  "saveLoop newScore i g =
     (if i < 5 then
        (if newScore > highscores g ! i then
           g\<lparr>highscores := (shiftDown (highscores g) i 4)[i := newScore],
             newHighscoreIndex := int i\<rparr>
         else saveLoop newScore (i + 1) g)
      else g)"
  by pat_completeness auto
termination
  by (relation "measure (\<lambda>(s, i, g). 5 - i)") auto

declare saveLoop.simps [simp del]

definition saveHighscores :: "int \<Rightarrow> game \<Rightarrow> game" where
  "saveHighscores newScore g = saveLoop newScore 0 (g\<lparr>newHighscoreIndex := - 1\<rparr>)"

text \<open>
  Notions for stating the contract: a list in descending order, equal neighbours
  allowed; a list in strictly descending order; and the topmost slot whose entry is
  less than a score \<open>s\<close> (the length of the list when there is none).
\<close>

definition descending :: "int list \<Rightarrow> bool" where
  "descending hs = sorted_wrt (\<lambda>a b. a \<ge> b) hs"

definition strictly_descending :: "int list \<Rightarrow> bool" where
  "strictly_descending hs = sorted_wrt (\<lambda>a b. a > b) hs"

definition firstSlot :: "int \<Rightarrow> int list \<Rightarrow> nat" where
  "firstSlot s hs = length (takeWhile (\<lambda>e. \<not> e < s) hs)"

subsection \<open>Environment\<close>

text \<open>
  What one call of \<open>loop()\<close> reads from the Arduino core: the clock at its first
  line (\<open>currentTime\<close>); the clock at the later calls of \<open>millis()\<close> in the same call
  (\<open>now\<close>: they follow each other within a few instructions and are taken to return
  the same reading); the level of the button pin, which every path through \<open>loop()\<close>
  reads at most once (\<open>pressed\<close> when it is \<open>LOW\<close>); and the raw values of the random
  generator that would serve the pipe with index \<open>i\<close>, should it be placed in this
  call: \<open>jitterRaw i\<close> for its spacing and \<open>heightRaw i\<close> for its height.
\<close>

record input =
  currentTime :: "32 word"
  now :: "32 word"
  pressed :: bool
  jitterRaw :: "nat \<Rightarrow> int"
  heightRaw :: "nat \<Rightarrow> int"

text \<open>
  Modelled from the spec: \<open>random(lo, hi)\<close> is a function of the Arduino core, which is
  not part of the sketch. The spec describes the random source as "uniform integer in
  [lo, hi)"; \<open>r\<close> is the raw value of the generator that the call reduces to the range.
\<close>

definition random_draw :: "int \<Rightarrow> int \<Rightarrow> int \<Rightarrow> int" where
  "random_draw r lo hi = (if hi \<le> lo then lo else lo + r mod (hi - lo))"

text \<open>
  Modelled from the spec: \<open>constrain(v, lo, hi)\<close> is a macro of the Arduino core. The
  spec says that the velocity "is clamped to a fixed symmetric range".
\<close>

definition constrain :: "int \<Rightarrow> int \<Rightarrow> int \<Rightarrow> int" where
  "constrain v lo hi = (if v < lo then lo else if v > hi then hi else v)"

subsection \<open>16-bit integers\<close>

text \<open>
  The range of a 16-bit \<open>int\<close>, and the value that the board keeps of an integer: its
  low 16 bits, read as a number in two's complement.
\<close>

definition int16 :: "int \<Rightarrow> bool" where
  "int16 v = (- 32768 \<le> v \<and> v \<le> 32767)"

definition to_int16 :: "int \<Rightarrow> int" where
  "to_int16 v = (v + 32768) mod 65536 - 32768"

subsection \<open>Pipes: \<open>generatePipeHeight\<close>, \<open>findFurthestPipe\<close>, \<open>movePipes\<close>, \<open>resetGame\<close>\<close>

definition generatePipeHeight :: "int \<Rightarrow> int" where
  "generatePipeHeight r =
     random_draw r (10 * SCALE_FACTOR) (SCREEN_HEIGHT * SCALE_FACTOR - PIPE_GAP - 10 * SCALE_FACTOR)"

text \<open>The loop of \<open>findFurthestPipe\<close>, started at \<open>i\<close> with the running maximum \<open>maxX\<close>.\<close>

function furthestLoop :: "Pipe list \<Rightarrow> nat \<Rightarrow> int \<Rightarrow> int" where
  "furthestLoop ps i maxX =
     (if i < MAX_PIPES then
        furthestLoop ps (i + 1) (if x (ps ! i) > maxX then x (ps ! i) else maxX)
      else maxX)"
  by pat_completeness auto
termination
  by (relation "measure (\<lambda>(ps, i, maxX). MAX_PIPES - i)") auto

declare furthestLoop.simps [simp del]

definition findFurthestPipe :: "game \<Rightarrow> int" where
  "findFurthestPipe g = furthestLoop (pipes g) 0 0"

text \<open>Assignments to the fields of \<open>pipes[i]\<close>.\<close>

definition set_x :: "nat \<Rightarrow> int \<Rightarrow> game \<Rightarrow> game" where
  "set_x i v g = g\<lparr>pipes := (pipes g)[i := (pipes g ! i)\<lparr>x := v\<rparr>]\<rparr>"

definition set_height :: "nat \<Rightarrow> int \<Rightarrow> game \<Rightarrow> game" where
  "set_height i v g = g\<lparr>pipes := (pipes g)[i := (pipes g ! i)\<lparr>height := v\<rparr>]\<rparr>"

text \<open>
  The body of the loop of \<open>movePipes\<close> for the pipe with index \<open>i\<close>. The new position
  is the sum of the \<open>int\<close> \<open>findFurthestPipe() + PIPE_SPACING\<close> and the \<open>long\<close>
  \<open>random(-20, 20) * SCALE_FACTOR\<close>, narrowed to \<open>int\<close> by the assignment. The new
  height is between 100 and 239 and fits as it is.
\<close>

definition movePipe :: "input \<Rightarrow> int \<Rightarrow> nat \<Rightarrow> game \<Rightarrow> game" where
  "movePipe inp currentSpeed i g =
     (let g1 = set_x i (to_int16 (x (pipes g ! i) - currentSpeed)) g in
      if x (pipes g1 ! i) < - PIPE_WIDTH then
        let g2 = set_x i (to_int16 (to_int16 (findFurthestPipe g1 + PIPE_SPACING) +
                          random_draw (jitterRaw inp i) (- 20) 20 * SCALE_FACTOR)) g1;
            g3 = set_height i (random_draw (heightRaw inp i) (10 * SCALE_FACTOR)
                   (SCREEN_HEIGHT * SCALE_FACTOR - PIPE_GAP - 10 * SCALE_FACTOR)) g2
        in g3\<lparr>score := to_int16 (score g3 + 1)\<rparr>
      else g1)"

function movePipesLoop :: "input \<Rightarrow> int \<Rightarrow> nat \<Rightarrow> game \<Rightarrow> game" where
  "movePipesLoop inp currentSpeed i g =
     (if i < MAX_PIPES then movePipesLoop inp currentSpeed (i + 1) (movePipe inp currentSpeed i g)
      else g)"
  by pat_completeness auto
termination
  by (relation "measure (\<lambda>(inp, s, i, g). MAX_PIPES - i)") auto

declare movePipesLoop.simps [simp del]

definition movePipes :: "input \<Rightarrow> game \<Rightarrow> game" where
  "movePipes inp g = movePipesLoop inp (to_int16 (PIPE_SPEED + score g)) 0 g"

text \<open>The loop of \<open>resetGame\<close> over the pipes 1 and 2.\<close>

function resetLoop :: "input \<Rightarrow> nat \<Rightarrow> game \<Rightarrow> game" where
  "resetLoop inp i g =
     (if i < MAX_PIPES then
        resetLoop inp (i + 1)
          (set_height i (generatePipeHeight (heightRaw inp i))
            (set_x i (SCREEN_WIDTH * SCALE_FACTOR + int i * PIPE_SPACING +
                      random_draw (jitterRaw inp i) (- 20) 20 * SCALE_FACTOR) g))
      else g)"
  by pat_completeness auto
termination
  by (relation "measure (\<lambda>(inp, i, g). MAX_PIPES - i)") auto

declare resetLoop.simps [simp del]

definition resetGame :: "input \<Rightarrow> game \<Rightarrow> game" where
  "resetGame inp g =
     (let g1 = g\<lparr>birdY := SCREEN_HEIGHT * SCALE_FACTOR div 5, velocity := 0, score := 0,
                 gameOver := False\<rparr>;
          g2 = set_x 0 (SCREEN_WIDTH * SCALE_FACTOR) g1;
          g3 = set_height 0 (generatePipeHeight (heightRaw inp 0)) g2
      in resetLoop inp 1 g3)"

subsection \<open>Collision detection: \<open>checkCollision\<close>\<close>

text \<open>
  The body of the loop of \<open>checkCollision\<close> for the pipe with index \<open>i\<close>; \<open>t\<close> is the
  reading of \<open>millis()\<close>.
\<close>

definition collidePipe :: "32 word \<Rightarrow> nat \<Rightarrow> game \<Rightarrow> game" where
  "collidePipe t i g =
     (if x (pipes g ! i) < (15 + 2) * SCALE_FACTOR \<and>
         x (pipes g ! i) + PIPE_WIDTH > (15 - 2) * SCALE_FACTOR then
        (if birdY g - 2 * SCALE_FACTOR < height (pipes g ! i) \<or>
            birdY g + 2 * SCALE_FACTOR > height (pipes g ! i) + PIPE_GAP then
           saveHighscores (score g) (g\<lparr>gameOver := True, gameOverTime := t\<rparr>)
         else g)
      else g)"

function collisionLoop :: "32 word \<Rightarrow> nat \<Rightarrow> game \<Rightarrow> game" where
  "collisionLoop t i g =
     (if i < MAX_PIPES then collisionLoop t (i + 1) (collidePipe t i g) else g)"
  by pat_completeness auto
termination
  by (relation "measure (\<lambda>(t, i, g). MAX_PIPES - i)") auto

declare collisionLoop.simps [simp del]

definition checkCollision :: "32 word \<Rightarrow> game \<Rightarrow> game" where
  "checkCollision t g =
     (let g1 = collisionLoop t 0 g in
      if birdY g1 \<ge> SCREEN_HEIGHT * SCALE_FACTOR then
        saveHighscores (score g1) (g1\<lparr>gameOver := True, gameOverTime := t\<rparr>)
      else g1)"

text \<open>
  Notions for stating what \<open>checkCollision\<close> tests, in the words of the description of
  the game and not of the code: two spans \<open>(a, b)\<close> and \<open>(c, d)\<close> overlap; the span
  \<open>[a, b]\<close> lies within \<open>[lo, hi]\<close>; and the player at height \<open>y\<close> hits the pipe \<open>p\<close> when
  the pipe overlaps the player's horizontal span, 2 pixels to each side of the pixel
  column 15, while the player's vertical span, 2 pixels to each side of \<open>y\<close>, does not
  lie within the gap.
\<close>

definition spans_overlap :: "int \<Rightarrow> int \<Rightarrow> int \<Rightarrow> int \<Rightarrow> bool" where
  "spans_overlap a b c d = (a < d \<and> c < b)"

definition span_within :: "int \<Rightarrow> int \<Rightarrow> int \<Rightarrow> int \<Rightarrow> bool" where
  "span_within a b lo hi = (lo \<le> a \<and> b \<le> hi)"

definition spec_hits_pipe :: "Pipe \<Rightarrow> int \<Rightarrow> bool" where
  "spec_hits_pipe p y =
     (spans_overlap (x p) (x p + PIPE_WIDTH)
        (15 * SCALE_FACTOR - 2 * SCALE_FACTOR) (15 * SCALE_FACTOR + 2 * SCALE_FACTOR) \<and>
      \<not> span_within (y - 2 * SCALE_FACTOR) (y + 2 * SCALE_FACTOR) (height p) (height p + PIPE_GAP))"

subsection \<open>The main loop\<close>

text \<open>
  The physics of the player in the \<open>PLAYING\<close> case of \<open>loop()\<close>: jump, gravity, the
  limit of the velocity, the new position and the upper edge of the screen.
\<close>

definition physicsStep :: "bool \<Rightarrow> game \<Rightarrow> game" where
  "physicsStep jump g =
     (let g1 = (if jump then g\<lparr>velocity := JUMP_STRENGTH\<rparr> else g);
          g2 = g1\<lparr>velocity := velocity g1 + GRAVITY\<rparr>;
          g3 = g2\<lparr>velocity := constrain (velocity g2) (- 50) 50\<rparr>;
          g4 = g3\<lparr>birdY := birdY g3 + velocity g3\<rparr>
      in if birdY g4 < 0 then g4\<lparr>birdY := 0\<rparr> else g4)"

definition playingCase :: "input \<Rightarrow> game \<Rightarrow> game" where
  "playingCase inp g =
     (if gameOver g then
        let g1 = (if now inp - gameOverTime g > 3000
                  then g\<lparr>gameState := HIGHSCORE, highscoreTime := now inp\<rparr> else g)
        in if now inp - gameOverTime g1 > 1000 \<and> pressed inp
           then (resetGame inp g1)\<lparr>gameState := PLAYING\<rparr> else g1
      else checkCollision (now inp) (movePipes inp (physicsStep (pressed inp) g)))"

definition highscoreCase :: "input \<Rightarrow> game \<Rightarrow> game" where
  "highscoreCase inp g =
     (let g1 = (if now inp - gameOverTime g > 8000 then g\<lparr>gameState := STARTSCREEN\<rparr> else g)
      in if pressed inp then (resetGame inp g1)\<lparr>gameState := PLAYING\<rparr> else g1)"

definition startscreenCase :: "input \<Rightarrow> game \<Rightarrow> game" where
  "startscreenCase inp g =
     (if pressed inp then (resetGame inp g)\<lparr>gameState := PLAYING\<rparr> else g)"

definition loop :: "input \<Rightarrow> game \<Rightarrow> game" where
  "loop inp g =
     (if currentTime inp - lastFrameTime g < FRAME_TIME then g
      else
        let g1 = g\<lparr>lastFrameTime := currentTime inp, frameCounter := frameCounter g + 1\<rparr>
        in case gameState g1 of
             STARTSCREEN \<Rightarrow> startscreenCase inp g1
           | PLAYING \<Rightarrow> playingCase inp g1
           | HIGHSCORE \<Rightarrow> highscoreCase inp g1)"

text \<open>The globals as the sketch initialises them, and a run of calls of \<open>loop()\<close>.\<close>

definition initGame :: game where
  "initGame =
     \<lparr>birdY = 0, velocity = 0, gameOver = False, score = 0, frameCounter = 0,
      gameOverTime = 0, gameState = STARTSCREEN,
      pipes = [\<lparr>x = 0, height = 0\<rparr>, \<lparr>x = 0, height = 0\<rparr>, \<lparr>x = 0, height = 0\<rparr>],
      highscores = [0, 0, 0, 0, 0], newHighscoreIndex = - 1, highscoreTime = 0,
      lastFrameTime = 0\<rparr>"

fun run :: "input list \<Rightarrow> game \<Rightarrow> game" where
  "run [] g = g"
| "run (inp # inps) g = run inps (loop inp g)"

text \<open>
  The range of the numbers of the player: the velocity within its limits, the position
  from the upper edge of the screen to at most one step below the lower edge, and
  below the lower edge only when the game is over.
\<close>

definition bird_range :: "game \<Rightarrow> bool" where
  "bird_range g =
     (- 50 \<le> velocity g \<and> velocity g \<le> 50 \<and> 0 \<le> birdY g \<and> birdY g \<le> 689 \<and>
      (gameOver g \<or> birdY g < SCREEN_HEIGHT * SCALE_FACTOR))"

text \<open>
  A game for testing. \<open>loop()\<close> is called every 40 ms; the random source returns 0 at
  every call; the button is down at the first call, which starts the game, at every
  ninth call from the 6th to the 132nd, which keeps the player in the air, and at the
  136th. After that the player falls.
\<close>

definition demoInput :: "nat \<Rightarrow> input" where
  "demoInput k =
     \<lparr>currentTime = 40 * of_nat k, now = 40 * of_nat k,
      pressed = (k = 1 \<or> (k \<le> 132 \<and> k mod 9 = 6) \<or> k = 136),
      jitterRaw = (\<lambda>i. 0), heightRaw = (\<lambda>i. 0)\<rparr>"

definition demoGame :: "nat \<Rightarrow> game" where
  "demoGame n = run (map demoInput [1..<Suc n]) initGame"

section \<open>Properties\<close>

subsection \<open>The highscore list\<close>

lemma length_shiftDown [simp]: "length (shiftDown hs i j) = length hs"
  by (induction hs i j rule: shiftDown.induct) (subst shiftDown.simps, simp)

lemma nth_shiftDown:
  "j < length hs \<Longrightarrow> k < length hs \<Longrightarrow>
   shiftDown hs i j ! k = (if i < k \<and> k \<le> j then hs ! (k - 1) else hs ! k)"
proof (induction hs i j rule: shiftDown.induct)
  case (1 hs i j)
  show ?case
  proof (cases "j > i")
    case True
    then have "shiftDown hs i j ! k = shiftDown (hs[j := hs ! (j - 1)]) i (j - 1) ! k"
      by (subst shiftDown.simps) simp
    also have "\<dots> = (if i < k \<and> k \<le> j - 1 then (hs[j := hs ! (j - 1)]) ! (k - 1)
                      else (hs[j := hs ! (j - 1)]) ! k)"
      using "1.IH" [OF True] "1.prems" by simp
    also have "\<dots> = (if i < k \<and> k \<le> j then hs ! (k - 1) else hs ! k)"
      using True "1.prems" by (auto simp: nth_list_update)
    finally show ?thesis .
  next
    case False
    then show ?thesis by (subst shiftDown.simps) simp
  qed
qed

lemma shiftDown_insert:
  assumes "length hs = 5" and "k < 5"
  shows "(shiftDown hs k 4)[k := s] = take k hs @ s # butlast (drop k hs)"
proof (rule nth_equalityI)
  show "length ((shiftDown hs k 4)[k := s]) = length (take k hs @ s # butlast (drop k hs))"
    using assms by simp
next
  fix m assume "m < length ((shiftDown hs k 4)[k := s])"
  then have m: "m < 5" using assms by simp
  show "(shiftDown hs k 4)[k := s] ! m = (take k hs @ s # butlast (drop k hs)) ! m"
    using assms m
    by (auto simp: nth_shiftDown nth_list_update nth_append nth_Cons' nth_butlast)
qed

lemma saveLoop_none:
  "\<forall>m. i \<le> m \<and> m < 5 \<longrightarrow> \<not> highscores g ! m < newScore \<Longrightarrow> saveLoop newScore i g = g"
proof (induction newScore i g rule: saveLoop.induct)
  case (1 newScore i g)
  then show ?case by (subst saveLoop.simps) auto
qed

lemma saveLoop_found:
  "i \<le> k \<Longrightarrow> k < 5 \<Longrightarrow> \<forall>m. i \<le> m \<and> m < k \<longrightarrow> \<not> highscores g ! m < newScore \<Longrightarrow>
   highscores g ! k < newScore \<Longrightarrow>
   saveLoop newScore i g =
     g\<lparr>highscores := (shiftDown (highscores g) k 4)[k := newScore], newHighscoreIndex := int k\<rparr>"
proof (induction newScore i g rule: saveLoop.induct)
  case (1 newScore i g)
  show ?case
  proof (cases "i = k")
    case True
    with "1.prems" show ?thesis by (subst saveLoop.simps) simp
  next
    case False
    with "1.prems" have "i < k" "\<not> highscores g ! i < newScore" "i < 5" by auto
    with "1.IH" "1.prems" show ?thesis by (subst saveLoop.simps) auto
  qed
qed

lemma firstSlot_props:
  assumes "\<exists>e\<in>set hs. e < s"
  shows "firstSlot s hs < length hs" and "hs ! firstSlot s hs < s"
    and "\<forall>m<firstSlot s hs. \<not> hs ! m < s"
proof -
  have "takeWhile (\<lambda>e. \<not> e < s) hs \<noteq> hs"
    using assms by (simp add: takeWhile_eq_all_conv)
  then have "length (takeWhile (\<lambda>e. \<not> e < s) hs) \<noteq> length hs"
    by (metis takeWhile_eq_take take_all order_refl)
  with length_takeWhile_le [of "\<lambda>e. \<not> e < s" hs]
  show lt: "firstSlot s hs < length hs"
    by (simp add: firstSlot_def)
  from nth_length_takeWhile [of "\<lambda>e. \<not> e < s" hs] lt
  show "hs ! firstSlot s hs < s"
    by (simp add: firstSlot_def)
  show "\<forall>m<firstSlot s hs. \<not> hs ! m < s"
  proof (intro allI impI)
    fix m assume m: "m < firstSlot s hs"
    then have "takeWhile (\<lambda>e. \<not> e < s) hs ! m \<in> set (takeWhile (\<lambda>e. \<not> e < s) hs)"
      by (simp add: firstSlot_def)
    then have "\<not> takeWhile (\<lambda>e. \<not> e < s) hs ! m < s"
      by (blast dest: set_takeWhileD)
    with m show "\<not> hs ! m < s"
      by (simp add: firstSlot_def takeWhile_nth)
  qed
qed

lemma saveHighscores_insert:
  assumes "length (highscores g) = 5" and "\<exists>e\<in>set (highscores g). e < s"
  shows "saveHighscores s g =
     g\<lparr>highscores := take (firstSlot s (highscores g)) (highscores g) @
                       s # butlast (drop (firstSlot s (highscores g)) (highscores g)),
       newHighscoreIndex := int (firstSlot s (highscores g))\<rparr>"
proof -
  let ?hs = "highscores g" and ?k = "firstSlot s (highscores g)"
  let ?g = "g\<lparr>newHighscoreIndex := - 1\<rparr>"
  have k: "?k < 5" "?hs ! ?k < s" "\<forall>m<?k. \<not> ?hs ! m < s"
    using firstSlot_props [OF assms(2)] assms(1) by simp_all
  have "saveLoop s 0 ?g =
     ?g\<lparr>highscores := (shiftDown (highscores ?g) ?k 4)[?k := s], newHighscoreIndex := int ?k\<rparr>"
    by (rule saveLoop_found) (use k in simp_all)
  then show ?thesis
    using assms(1) k(1) by (simp add: saveHighscores_def shiftDown_insert)
qed

lemma saveHighscores_noop:
  assumes "\<not> (\<exists>e\<in>set (highscores g). e < s)" and "length (highscores g) = 5"
  shows "saveHighscores s g = g\<lparr>newHighscoreIndex := - 1\<rparr>"
proof -
  have "\<forall>m. 0 \<le> m \<and> m < 5 \<longrightarrow> \<not> highscores (g\<lparr>newHighscoreIndex := - 1\<rparr>) ! m < s"
  proof (intro allI impI)
    fix m :: nat assume "0 \<le> m \<and> m < 5"
    then have "highscores g ! m \<in> set (highscores g)"
      using assms(2) by simp
    with assms(1) show "\<not> highscores (g\<lparr>newHighscoreIndex := - 1\<rparr>) ! m < s"
      by auto
  qed
  then show ?thesis
    unfolding saveHighscores_def by (rule saveLoop_none)
qed

lemma descending_last_Min:
  assumes "descending hs" and "hs \<noteq> []"
  shows "last hs = Min (set hs)"
proof -
  have "\<forall>e\<in>set hs. last hs \<le> e"
    using assms
  proof (induction hs)
    case Nil
    then show ?case by simp
  next
    case (Cons a hs)
    then show ?case by (cases "hs = []") (auto simp: descending_def)
  qed
  moreover have "last hs \<in> set hs" using assms(2) by simp
  ultimately show ?thesis
    by (simp add: Min_eqI [symmetric])
qed

lemma descending_insert:
  assumes d: "descending hs" and k: "k < length hs"
    and above: "\<forall>m<k. \<not> hs ! m < s" and below: "hs ! k < s"
  shows "descending (take k hs @ s # butlast (drop k hs))"
proof -
  have sorted: "sorted_wrt (\<lambda>a b. a \<ge> b) hs"
    using d by (simp add: descending_def)
  have tail: "\<forall>y\<in>set (drop k hs). y < s"
  proof
    fix y assume "y \<in> set (drop k hs)"
    then obtain j where j: "j < length hs - k" "y = hs ! (k + j)"
      by (auto simp: in_set_conv_nth)
    have "hs ! (k + j) \<le> hs ! k"
    proof (cases "j = 0")
      case True
      then show ?thesis by simp
    next
      case False
      with j(1) sorted_wrt_nth_less [OF sorted, of k "k + j"] show ?thesis by simp
    qed
    with below j(2) show "y < s" by simp
  qed
  have head: "\<forall>e\<in>set (take k hs). s \<le> e"
  proof
    fix e assume "e \<in> set (take k hs)"
    then obtain m where "m < k" "e = hs ! m"
      using k by (auto simp: in_set_conv_nth)
    with above show "s \<le> e" by (simp add: not_less)
  qed
  have "sorted_wrt (\<lambda>a b. a \<ge> b) (take k hs)"
    using sorted by (rule sorted_wrt_take)
  moreover have "sorted_wrt (\<lambda>a b. a \<ge> b) (butlast (drop k hs))"
    using sorted_wrt_take [OF sorted_wrt_drop [OF sorted, of k]]
    by (simp add: butlast_conv_take)
  moreover have "\<forall>y\<in>set (butlast (drop k hs)). y < s"
    using tail by (blast dest: in_set_butlastD)
  ultimately show ?thesis
    using head by (fastforce simp: descending_def sorted_wrt_append)
qed

lemma saveHighscores_length:
  "length (highscores g) = 5 \<Longrightarrow> length (highscores (saveHighscores s g)) = 5"
  using saveHighscores_insert [of g s] saveHighscores_noop [of g s] firstSlot_props(1) [of "highscores g" s]
  by (cases "\<exists>e\<in>set (highscores g). e < s") auto

lemma saveHighscores_descending:
  assumes "length (highscores g) = 5" and "descending (highscores g)"
  shows "descending (highscores (saveHighscores s g))"
proof (cases "\<exists>e\<in>set (highscores g). e < s")
  case True
  from firstSlot_props [OF True] assms(2)
  have "descending (take (firstSlot s (highscores g)) (highscores g) @
                    s # butlast (drop (firstSlot s (highscores g)) (highscores g)))"
    by (intro descending_insert) simp_all
  then show ?thesis
    by (simp add: saveHighscores_insert [OF assms(1) True])
next
  case False
  then show ?thesis
    using assms by (simp add: saveHighscores_noop)
qed

lemma saveHighscores_nonneg:
  assumes "length (highscores g) = 5" and "\<forall>e\<in>set (highscores g). 0 \<le> e"
  shows "\<forall>e\<in>set (highscores (saveHighscores s g)). 0 \<le> e"
proof (cases "\<exists>e\<in>set (highscores g). e < s")
  case True
  then have "0 \<le> s" using assms(2) by force
  moreover have "\<forall>e\<in>set (take (firstSlot s (highscores g)) (highscores g)). 0 \<le> e"
    using assms(2) by (blast dest: in_set_takeD)
  moreover have "\<forall>e\<in>set (butlast (drop (firstSlot s (highscores g)) (highscores g))). 0 \<le> e"
    using assms(2) by (blast dest: in_set_butlastD in_set_dropD)
  ultimately show ?thesis
    by (auto simp: saveHighscores_insert [OF assms(1) True])
next
  case False
  then show ?thesis
    using assms by (simp add: saveHighscores_noop)
qed

text \<open>
  C1. For a list of five entries in descending order, \<open>saveHighscores s\<close> inserts \<open>s\<close>
  exactly when some entry is less than \<open>s\<close>. It then writes \<open>s\<close> into the topmost slot
  whose entry is less than \<open>s\<close>, keeps the entries above it, moves that entry and the
  ones below it down by one, drops the last entry (the lowest of the list) and records
  the slot in \<open>newHighscoreIndex\<close>. Otherwise the list stays as it is and the index is
  \<open>-1\<close>; this is the case whenever \<open>s\<close> is at most the lowest entry.
\<close>

theorem saveHighscores_contract:
  assumes "length (highscores g) = 5" and "descending (highscores g)"
  shows "saveHighscores s g =
      (if \<exists>e\<in>set (highscores g). e < s
       then g\<lparr>highscores := take (firstSlot s (highscores g)) (highscores g) @
                     s # butlast (drop (firstSlot s (highscores g)) (highscores g)),
              newHighscoreIndex := int (firstSlot s (highscores g))\<rparr>
       else g\<lparr>newHighscoreIndex := - 1\<rparr>) \<and>
    ((\<exists>e\<in>set (highscores g). e < s) \<longrightarrow>
       firstSlot s (highscores g) < 5 \<and>
       highscores g ! firstSlot s (highscores g) < s \<and>
       (\<forall>m<firstSlot s (highscores g). s \<le> highscores g ! m)) \<and>
    last (highscores g) = Min (set (highscores g)) \<and>
    (s \<le> Min (set (highscores g)) \<longrightarrow>
       highscores (saveHighscores s g) = highscores g \<and>
       newHighscoreIndex (saveHighscores s g) = - 1)"
proof (intro conjI)
  show "saveHighscores s g =
      (if \<exists>e\<in>set (highscores g). e < s
       then g\<lparr>highscores := take (firstSlot s (highscores g)) (highscores g) @
                     s # butlast (drop (firstSlot s (highscores g)) (highscores g)),
              newHighscoreIndex := int (firstSlot s (highscores g))\<rparr>
       else g\<lparr>newHighscoreIndex := - 1\<rparr>)"
    using saveHighscores_insert [OF assms(1)] saveHighscores_noop [OF _ assms(1)]
    by (cases "\<exists>e\<in>set (highscores g). e < s") simp_all
  show "(\<exists>e\<in>set (highscores g). e < s) \<longrightarrow>
           firstSlot s (highscores g) < 5 \<and>
           highscores g ! firstSlot s (highscores g) < s \<and>
           (\<forall>m<firstSlot s (highscores g). s \<le> highscores g ! m)"
    using firstSlot_props [of "highscores g" s] assms(1) by (auto simp: not_less)
  from assms show "last (highscores g) = Min (set (highscores g))"
    by (intro descending_last_Min) auto
  show "s \<le> Min (set (highscores g)) \<longrightarrow>
           highscores (saveHighscores s g) = highscores g \<and>
           newHighscoreIndex (saveHighscores s g) = - 1"
  proof
    assume "s \<le> Min (set (highscores g))"
    then have "\<not> (\<exists>e\<in>set (highscores g). e < s)"
      using assms(1) by (auto simp: not_less dest!: Min_le [rotated])
    then show "highscores (saveHighscores s g) = highscores g \<and>
           newHighscoreIndex (saveHighscores s g) = - 1"
      using saveHighscores_noop [OF _ assms(1)] by simp
  qed
qed

text \<open>
  The scenarios of C1: \<open>[50, 40, 30, 20, 10]\<close> with 35 gives \<open>[50, 40, 35, 30, 20]\<close> and
  the index 2; with 10, the lowest entry, nothing changes and the index is \<open>-1\<close>.
\<close>

theorem saveHighscores_contract_witness:
  "length (highscores (initGame\<lparr>highscores := [50, 40, 30, 20, 10]\<rparr>)) = 5 \<and>
   descending (highscores (initGame\<lparr>highscores := [50, 40, 30, 20, 10]\<rparr>)) \<and>
   highscores (saveHighscores 35 (initGame\<lparr>highscores := [50, 40, 30, 20, 10]\<rparr>)) =
     [50, 40, 35, 30, 20] \<and>
   newHighscoreIndex (saveHighscores 35 (initGame\<lparr>highscores := [50, 40, 30, 20, 10]\<rparr>)) = 2 \<and>
   last (highscores (initGame\<lparr>highscores := [50, 40, 30, 20, 10]\<rparr>)) = 10 \<and>
   highscores (saveHighscores 10 (initGame\<lparr>highscores := [50, 40, 30, 20, 10]\<rparr>)) =
     [50, 40, 30, 20, 10] \<and>
   newHighscoreIndex (saveHighscores 10 (initGame\<lparr>highscores := [50, 40, 30, 20, 10]\<rparr>)) = - 1"
proof -
  let ?g = "initGame\<lparr>highscores := [50, 40, 30, 20, 10]\<rparr>"
  have h: "length (highscores ?g) = 5" "descending (highscores ?g)"
    by (simp_all add: descending_def)
  from saveHighscores_contract [OF h, of 35] saveHighscores_contract [OF h, of 10] h
  show ?thesis
    by (simp add: firstSlot_def)
qed

lemma fold_saveHighscores_inv:
  "length (highscores g) = 5 \<Longrightarrow> descending (highscores g) \<Longrightarrow>
   length (highscores (fold saveHighscores ss g)) = 5 \<and>
   descending (highscores (fold saveHighscores ss g))"
proof (induction ss arbitrary: g)
  case Nil
  then show ?case by simp
next
  case (Cons s ss)
  from Cons.prems have "length (highscores (saveHighscores s g)) = 5"
    and "descending (highscores (saveHighscores s g))"
    by (simp_all add: saveHighscores_length saveHighscores_descending)
  then show ?case
    using Cons.IH by simp
qed

lemma saveHighscores_initGame_5:
  "highscores (saveHighscores 5 initGame) = [5, 0, 0, 0, 0]"
  using saveHighscores_insert [of initGame 5]
  by (simp add: initGame_def firstSlot_def)

lemma saveHighscores_twice_5:
  "highscores (fold saveHighscores [5, 5] initGame) = [5, 5, 0, 0, 0]"
  using saveHighscores_insert [of "saveHighscores 5 initGame" 5] saveHighscores_initGame_5
  by (simp add: firstSlot_def)

text \<open>
  C6, as stated, fails: the list is not strictly descending. The sketch starts with five
  zeros, and a score equal to an entry is inserted below it: after the scores 5 and 5
  the list is \<open>[5, 5, 0, 0, 0]\<close>.
\<close>

theorem strictly_descending_counterexample:
  "\<not> strictly_descending (highscores initGame) \<and>
   \<not> strictly_descending (highscores (fold saveHighscores [5, 5] initGame))"
proof -
  have "\<not> strictly_descending [5, 5, 0, 0, 0]"
    by (simp add: strictly_descending_def)
  moreover have "\<not> strictly_descending (highscores initGame)"
    by (simp add: initGame_def strictly_descending_def)
  ultimately show ?thesis
    by (simp only: saveHighscores_twice_5 simp_thms)
qed

text \<open>
  C6, amended. Whatever scores are submitted one after the other, the list keeps its
  five entries and stays in descending order, equal neighbours allowed. The list of
  five zeros of the start is such a list.
\<close>

theorem highscores_sorted_length:
  assumes "length (highscores g) = 5" and "descending (highscores g)"
  shows "length (highscores (fold saveHighscores ss g)) = 5 \<and>
         descending (highscores (fold saveHighscores ss g))"
  using assms by (rule fold_saveHighscores_inv)

theorem highscores_sorted_length_witness:
  "length (highscores initGame) = 5 \<and> descending (highscores initGame) \<and>
   length (highscores (fold saveHighscores [3, 7, 3, 0, 9] initGame)) = 5 \<and>
   descending (highscores (fold saveHighscores [3, 7, 3, 0, 9] initGame))"
proof -
  have h: "length (highscores initGame) = 5" "descending (highscores initGame)"
    by (simp_all add: initGame_def descending_def)
  from highscores_sorted_length [OF h, of "[3, 7, 3, 0, 9]"] h show ?thesis
    by simp
qed

text \<open>
  C9. One call of \<open>saveHighscores\<close> turns a list of five entries that are not negative
  and in descending order (equal neighbours allowed) into a list of the same kind.
  Strict order is not kept: from the strictly descending list \<open>[5, 4, 3, 2, 1]\<close> the
  score 4, which is greater than the entry 3, gives the list \<open>[5, 4, 4, 3, 2]\<close>.
\<close>

theorem saveHighscores_invariant:
  "(length (highscores g) = 5 \<and> descending (highscores g) \<and> (\<forall>e\<in>set (highscores g). 0 \<le> e) \<longrightarrow>
      length (highscores (saveHighscores s g)) = 5 \<and>
      descending (highscores (saveHighscores s g)) \<and>
      (\<forall>e\<in>set (highscores (saveHighscores s g)). 0 \<le> e)) \<and>
   strictly_descending (highscores (initGame\<lparr>highscores := [5, 4, 3, 2, 1]\<rparr>)) \<and>
   highscores (saveHighscores 4 (initGame\<lparr>highscores := [5, 4, 3, 2, 1]\<rparr>)) = [5, 4, 4, 3, 2] \<and>
   \<not> strictly_descending (highscores (saveHighscores 4 (initGame\<lparr>highscores := [5, 4, 3, 2, 1]\<rparr>)))"
proof -
  have e: "highscores (saveHighscores 4 (initGame\<lparr>highscores := [5, 4, 3, 2, 1]\<rparr>)) = [5, 4, 4, 3, 2]"
    using saveHighscores_insert [of "initGame\<lparr>highscores := [5, 4, 3, 2, 1]\<rparr>" 4]
    by (simp add: firstSlot_def)
  show ?thesis
    using saveHighscores_length [of g s] saveHighscores_descending [of g s]
      saveHighscores_nonneg [of g s]
    by (simp add: e strictly_descending_def)
qed

theorem saveHighscores_invariant_witness:
  "length (highscores initGame) = 5 \<and> descending (highscores initGame) \<and>
   list_all (\<lambda>e. 0 \<le> e) (highscores initGame) \<and>
   length (highscores (saveHighscores 7 initGame)) = 5 \<and>
   descending (highscores (saveHighscores 7 initGame)) \<and>
   list_all (\<lambda>e. 0 \<le> e) (highscores (saveHighscores 7 initGame))"
proof -
  have h: "length (highscores initGame) = 5 \<and> descending (highscores initGame) \<and>
     (\<forall>e\<in>set (highscores initGame). 0 \<le> e)"
    by (simp add: initGame_def descending_def)
  from saveHighscores_invariant [of initGame 7] h show ?thesis
    unfolding list_all_iff by blast
qed

subsection \<open>The physics of the player\<close>

text \<open>
  C3. One step of the physics: a jump sets the velocity to \<open>JUMP_STRENGTH\<close>, whatever
  it was; then \<open>GRAVITY\<close> is added and the sum is limited to the range from \<open>-50\<close> to
  \<open>50\<close>; the position grows by the new velocity and is cut off at 0 from below and
  not from above, so after the step it is never negative, while it does pass the
  lower edge of the screen. Nothing else of the game changes.
\<close>

theorem physicsStep_spec:
  "velocity (physicsStep jump g) =
     max (- 50) (min 50 ((if jump then JUMP_STRENGTH else velocity g) + GRAVITY)) \<and>
   velocity (physicsStep True g) = JUMP_STRENGTH + GRAVITY \<and>
   - 50 \<le> velocity (physicsStep jump g) \<and> velocity (physicsStep jump g) \<le> 50 \<and>
   birdY (physicsStep jump g) = max 0 (birdY g + velocity (physicsStep jump g)) \<and>
   0 \<le> birdY (physicsStep jump g) \<and>
   birdY (physicsStep False (g\<lparr>birdY := SCREEN_HEIGHT * SCALE_FACTOR - 1, velocity := 45\<rparr>)) =
     SCREEN_HEIGHT * SCALE_FACTOR + 49 \<and>
   physicsStep jump g =
     g\<lparr>velocity := velocity (physicsStep jump g), birdY := birdY (physicsStep jump g)\<rparr>"
  by (simp add: physicsStep_def constrain_def Let_def JUMP_STRENGTH_def GRAVITY_def
      SCREEN_HEIGHT_def SCALE_FACTOR_def)

subsection \<open>What the functions leave unchanged\<close>

lemma saveLoop_fields:
  "birdY (saveLoop s i g) = birdY g \<and> velocity (saveLoop s i g) = velocity g \<and>
   gameOver (saveLoop s i g) = gameOver g \<and> score (saveLoop s i g) = score g \<and>
   gameOverTime (saveLoop s i g) = gameOverTime g \<and> gameState (saveLoop s i g) = gameState g \<and>
   pipes (saveLoop s i g) = pipes g \<and> frameCounter (saveLoop s i g) = frameCounter g \<and>
   highscoreTime (saveLoop s i g) = highscoreTime g \<and>
   lastFrameTime (saveLoop s i g) = lastFrameTime g"
proof (induction s i g rule: saveLoop.induct)
  case (1 newScore i g)
  then show ?case by (subst (1 2 3 4 5 6 7 8 9 10) saveLoop.simps) simp
qed

lemma saveHighscores_fields [simp]:
  "birdY (saveHighscores s g) = birdY g" "velocity (saveHighscores s g) = velocity g"
  "gameOver (saveHighscores s g) = gameOver g" "score (saveHighscores s g) = score g"
  "gameOverTime (saveHighscores s g) = gameOverTime g"
  "gameState (saveHighscores s g) = gameState g" "pipes (saveHighscores s g) = pipes g"
  "frameCounter (saveHighscores s g) = frameCounter g"
  "highscoreTime (saveHighscores s g) = highscoreTime g"
  "lastFrameTime (saveHighscores s g) = lastFrameTime g"
  by (simp_all add: saveHighscores_def saveLoop_fields)

lemma collidePipe_fields [simp]:
  "birdY (collidePipe t i g) = birdY g" "velocity (collidePipe t i g) = velocity g"
  "score (collidePipe t i g) = score g" "gameState (collidePipe t i g) = gameState g"
  "pipes (collidePipe t i g) = pipes g"
  by (simp_all add: collidePipe_def)

lemma collidePipe_gameOver:
  "gameOver (collidePipe t i g) = (gameOver g \<or> spec_hits_pipe (pipes g ! i) (birdY g))"
  by (auto simp: collidePipe_def spec_hits_pipe_def spans_overlap_def span_within_def)

lemma collisionLoop_unroll:
  "collisionLoop t 0 g = collidePipe t 2 (collidePipe t 1 (collidePipe t 0 g))"
  by (simp add: collisionLoop.simps MAX_PIPES_def numeral_2_eq_2)

lemma collisionLoop_fields [simp]:
  "birdY (collisionLoop t 0 g) = birdY g" "velocity (collisionLoop t 0 g) = velocity g"
  "score (collisionLoop t 0 g) = score g" "gameState (collisionLoop t 0 g) = gameState g"
  "pipes (collisionLoop t 0 g) = pipes g"
  by (simp_all add: collisionLoop_unroll)

lemma less_3_cases: "(\<exists>i<3. P i) = (P 0 \<or> P (1::nat) \<or> P 2)"
proof -
  have "\<And>i::nat. i < 3 \<longleftrightarrow> i = 0 \<or> i = 1 \<or> i = 2" by auto
  then show ?thesis by auto
qed

lemma collisionLoop_gameOver:
  "gameOver (collisionLoop t 0 g) =
     (gameOver g \<or> (\<exists>i<MAX_PIPES. spec_hits_pipe (pipes g ! i) (birdY g)))"
  by (auto simp: collisionLoop_unroll collidePipe_gameOver MAX_PIPES_def less_3_cases)

lemma checkCollision_fields [simp]:
  "birdY (checkCollision t g) = birdY g" "velocity (checkCollision t g) = velocity g"
  "score (checkCollision t g) = score g" "gameState (checkCollision t g) = gameState g"
  "pipes (checkCollision t g) = pipes g"
  by (simp_all add: checkCollision_def Let_def)

lemma checkCollision_gameOver:
  "gameOver (checkCollision t g) =
     (gameOver g \<or> (\<exists>i<MAX_PIPES. spec_hits_pipe (pipes g ! i) (birdY g)) \<or>
      SCREEN_HEIGHT * SCALE_FACTOR \<le> birdY g)"
  by (auto simp: checkCollision_def Let_def collisionLoop_gameOver)

subsection \<open>Collision detection\<close>

text \<open>
  C2, as stated, fails: the margin of the hitbox is not 2 of the scaled units. A pipe
  at the player's column with its gap starting at 100 is hit by a player at 102, which
  is the start of the gap plus 2.
\<close>

theorem margin_2_counterexample:
  "spans_overlap 150 (150 + PIPE_WIDTH) (15 * SCALE_FACTOR - 2) (15 * SCALE_FACTOR + 2) \<and>
   gameOver (collidePipe 0 0
     (initGame\<lparr>birdY := 100 + 2, pipes := [\<lparr>x = 150, height = 100\<rparr>,
        \<lparr>x = 800, height = 100\<rparr>, \<lparr>x = 1450, height = 100\<rparr>]\<rparr>))"
  by (simp add: collidePipe_def initGame_def spans_overlap_def SCALE_FACTOR_def PIPE_WIDTH_def
      PIPE_GAP_def)

text \<open>
  C2, amended: the margin is 2 pixels, which is \<open>2 * SCALE_FACTOR\<close>, 20 of the scaled
  units. The test of one pipe sets \<open>gameOver\<close> exactly when the pipe overlaps the player's
  horizontal span (the column 15 with the margin to each side) and the player's
  vertical span (the position with the margin to each side) does not lie within the
  gap, from its start to its start plus \<open>PIPE_GAP\<close>. \<open>checkCollision\<close> sets it exactly
  when this holds for one of the three pipes or the player is at or below the lower
  edge of the screen; the latter alone is enough, whatever the pipes are. For a pipe
  that overlaps the player horizontally, a player at the start of the gap plus the
  margin, or at its end minus the margin, does not hit it, and one scaled unit further
  out does.
\<close>

theorem checkCollision_spec:
  "gameOver (collidePipe t i g) = (gameOver g \<or> spec_hits_pipe (pipes g ! i) (birdY g)) \<and>
   gameOver (checkCollision t g) =
     (gameOver g \<or> (\<exists>i<MAX_PIPES. spec_hits_pipe (pipes g ! i) (birdY g)) \<or>
      SCREEN_HEIGHT * SCALE_FACTOR \<le> birdY g) \<and>
   (SCREEN_HEIGHT * SCALE_FACTOR \<le> birdY g \<longrightarrow> gameOver (checkCollision t g)) \<and>
   (spans_overlap (x p) (x p + PIPE_WIDTH)
      (15 * SCALE_FACTOR - 2 * SCALE_FACTOR) (15 * SCALE_FACTOR + 2 * SCALE_FACTOR) \<longrightarrow>
      \<not> spec_hits_pipe p (height p + 2 * SCALE_FACTOR) \<and>
      spec_hits_pipe p (height p + 2 * SCALE_FACTOR - 1) \<and>
      \<not> spec_hits_pipe p (height p + PIPE_GAP - 2 * SCALE_FACTOR) \<and>
      spec_hits_pipe p (height p + PIPE_GAP - 2 * SCALE_FACTOR + 1))"
proof (intro conjI)
  show "gameOver (collidePipe t i g) = (gameOver g \<or> spec_hits_pipe (pipes g ! i) (birdY g))"
    by (rule collidePipe_gameOver)
  show "gameOver (checkCollision t g) =
     (gameOver g \<or> (\<exists>i<MAX_PIPES. spec_hits_pipe (pipes g ! i) (birdY g)) \<or>
      SCREEN_HEIGHT * SCALE_FACTOR \<le> birdY g)"
    by (rule checkCollision_gameOver)
  show "SCREEN_HEIGHT * SCALE_FACTOR \<le> birdY g \<longrightarrow> gameOver (checkCollision t g)"
    by (simp add: checkCollision_gameOver)
  show "spans_overlap (x p) (x p + PIPE_WIDTH)
      (15 * SCALE_FACTOR - 2 * SCALE_FACTOR) (15 * SCALE_FACTOR + 2 * SCALE_FACTOR) \<longrightarrow>
      \<not> spec_hits_pipe p (height p + 2 * SCALE_FACTOR) \<and>
      spec_hits_pipe p (height p + 2 * SCALE_FACTOR - 1) \<and>
      \<not> spec_hits_pipe p (height p + PIPE_GAP - 2 * SCALE_FACTOR) \<and>
      spec_hits_pipe p (height p + PIPE_GAP - 2 * SCALE_FACTOR + 1)"
    by (simp add: spec_hits_pipe_def span_within_def SCALE_FACTOR_def PIPE_GAP_def)
qed

theorem checkCollision_spec_witness:
  "SCREEN_HEIGHT * SCALE_FACTOR \<le> birdY (initGame\<lparr>birdY := 640\<rparr>) \<and>
   gameOver (checkCollision 0 (initGame\<lparr>birdY := 640\<rparr>)) \<and>
   spans_overlap (x \<lparr>x = 150, height = 100\<rparr>) (x \<lparr>x = 150, height = 100\<rparr> + PIPE_WIDTH)
      (15 * SCALE_FACTOR - 2 * SCALE_FACTOR) (15 * SCALE_FACTOR + 2 * SCALE_FACTOR) \<and>
   \<not> spec_hits_pipe \<lparr>x = 150, height = 100\<rparr> 120 \<and> spec_hits_pipe \<lparr>x = 150, height = 100\<rparr> 119 \<and>
   \<not> spec_hits_pipe \<lparr>x = 150, height = 100\<rparr> 380 \<and> spec_hits_pipe \<lparr>x = 150, height = 100\<rparr> 381"
proof -
  have h: "SCREEN_HEIGHT * SCALE_FACTOR \<le> birdY (initGame\<lparr>birdY := 640\<rparr>)"
    "spans_overlap (x \<lparr>x = 150, height = 100\<rparr>) (x \<lparr>x = 150, height = 100\<rparr> + PIPE_WIDTH)
      (15 * SCALE_FACTOR - 2 * SCALE_FACTOR) (15 * SCALE_FACTOR + 2 * SCALE_FACTOR)"
    by (simp_all add: spans_overlap_def SCREEN_HEIGHT_def SCALE_FACTOR_def PIPE_WIDTH_def)
  from checkCollision_spec [of 0 0 "initGame\<lparr>birdY := 640\<rparr>" "\<lparr>x = 150, height = 100\<rparr>"] h
  show ?thesis
    by (simp add: SCALE_FACTOR_def PIPE_GAP_def)
qed

subsection \<open>The pipes\<close>







lemma set_x_simps [simp]:
  "pipes (set_x i v g) = (pipes g)[i := (pipes g ! i)\<lparr>x := v\<rparr>]"
  "score (set_x i v g) = score g" "birdY (set_x i v g) = birdY g"
  "velocity (set_x i v g) = velocity g" "gameOver (set_x i v g) = gameOver g"
  "gameState (set_x i v g) = gameState g" "highscores (set_x i v g) = highscores g"
  by (simp_all add: set_x_def)

lemma set_height_simps [simp]:
  "pipes (set_height i v g) = (pipes g)[i := (pipes g ! i)\<lparr>height := v\<rparr>]"
  "score (set_height i v g) = score g" "birdY (set_height i v g) = birdY g"
  "velocity (set_height i v g) = velocity g" "gameOver (set_height i v g) = gameOver g"
  "gameState (set_height i v g) = gameState g" "highscores (set_height i v g) = highscores g"
  by (simp_all add: set_height_def)


lemma to_int16_range: "int16 (to_int16 v)"
  by (simp add: int16_def to_int16_def)


text \<open>\<open>to_int16\<close> is the conversion to a word of 16 bits, read with its sign.\<close>

lemma to_int16_sint: "to_int16 v = sint (word_of_int v :: 16 word)"
  by (simp add: to_int16_def sint_sbintrunc' signed_take_bit_eq_take_bit_shift take_bit_eq_mod)

lemma movePipe_fields [simp]:
  "birdY (movePipe inp s i g) = birdY g" "velocity (movePipe inp s i g) = velocity g"
  "gameOver (movePipe inp s i g) = gameOver g" "gameState (movePipe inp s i g) = gameState g"
  "highscores (movePipe inp s i g) = highscores g"
  "length (pipes (movePipe inp s i g)) = length (pipes g)"
  by (simp_all add: movePipe_def Let_def)





lemma movePipesLoop_unroll:
  "movePipesLoop inp s 0 g = movePipe inp s 2 (movePipe inp s 1 (movePipe inp s 0 g))"
  by (simp add: movePipesLoop.simps MAX_PIPES_def numeral_2_eq_2)








lemma physicsStep_fields [simp]:
  "score (physicsStep jump g) = score g" "pipes (physicsStep jump g) = pipes g"
  "gameOver (physicsStep jump g) = gameOver g" "gameState (physicsStep jump g) = gameState g"
  "highscores (physicsStep jump g) = highscores g"
  by (simp_all add: physicsStep_def Let_def)

lemma movePipes_fields [simp]:
  "birdY (movePipes inp g) = birdY g" "velocity (movePipes inp g) = velocity g"
  "gameOver (movePipes inp g) = gameOver g" "gameState (movePipes inp g) = gameState g"
  "highscores (movePipes inp g) = highscores g"
  "length (pipes (movePipes inp g)) = length (pipes g)"
  by (simp_all add: movePipes_def movePipesLoop_unroll)








subsection \<open>The numbers of the pipes\<close>

text \<open>
  Every position and every score that \<open>movePipes\<close> stores is a 16-bit number, as the
  variables of the sketch are.
\<close>

lemma movePipe_int16:
  assumes "\<forall>k<length (pipes g). int16 (x (pipes g ! k))" and "int16 (score g)"
  shows "(\<forall>k<length (pipes (movePipe inp s i g)). int16 (x (pipes (movePipe inp s i g) ! k))) \<and>
     int16 (score (movePipe inp s i g))"
proof (cases "i < length (pipes g)")
  case True
  with assms show ?thesis
    by (auto simp: movePipe_def Let_def to_int16_range nth_list_update)
next
  case False
  with assms show ?thesis
    by (auto simp: movePipe_def Let_def to_int16_range list_update_beyond)
qed

lemma movePipes_int16:
  assumes "\<forall>k<length (pipes g). int16 (x (pipes g ! k))" and "int16 (score g)"
  shows "(\<forall>k<length (pipes (movePipes inp g)). int16 (x (pipes (movePipes inp g) ! k))) \<and>
     int16 (score (movePipes inp g))"
proof -
  let ?s = "to_int16 (PIPE_SPEED + score g)"
  let ?g0 = "movePipe inp ?s 0 g"
  let ?g1 = "movePipe inp ?s 1 ?g0"
  have 0: "(\<forall>k<length (pipes ?g0). int16 (x (pipes ?g0 ! k))) \<and> int16 (score ?g0)"
    using assms by (rule movePipe_int16)
  then have 1: "(\<forall>k<length (pipes ?g1). int16 (x (pipes ?g1 ! k))) \<and> int16 (score ?g1)"
    by (intro movePipe_int16) blast+
  then show ?thesis
    unfolding movePipes_def movePipesLoop_unroll by (intro movePipe_int16) blast+
qed

subsection \<open>The numbers of the player\<close>

lemma resetGame_fields [simp]:
  "score (resetGame inp g) = 0" "gameOver (resetGame inp g) = False"
  "velocity (resetGame inp g) = 0"
  "birdY (resetGame inp g) = SCREEN_HEIGHT * SCALE_FACTOR div 5"
  "gameState (resetGame inp g) = gameState g" "highscores (resetGame inp g) = highscores g"
  "length (pipes (resetGame inp g)) = length (pipes g)"
  by (simp_all add: resetGame_def Let_def resetLoop.simps MAX_PIPES_def)

text \<open>
  In every game the velocity is between \<open>-50\<close> and 50 and the position of the player
  between 0 and 689: the game is over as soon as the position reaches the lower edge
  of the screen at 640, and the physics runs only while the game is not over.
\<close>

lemma loop_bird_range:
  assumes "bird_range g"
  shows "bird_range (loop inp g)"
proof -
  have p: "bird_range (checkCollision t (movePipes inp (physicsStep jump h)))"
    if "bird_range h" "\<not> gameOver h" for t jump h
    using that
    by (auto simp: bird_range_def checkCollision_gameOver physicsStep_def Let_def constrain_def
        JUMP_STRENGTH_def GRAVITY_def SCREEN_HEIGHT_def SCALE_FACTOR_def)
  have r: "bird_range (resetGame inp h)" for h
    by (simp add: bird_range_def SCREEN_HEIGHT_def SCALE_FACTOR_def)
  have f: "bird_range (h\<lparr>lastFrameTime := a, frameCounter := b\<rparr>) = bird_range h"
    "bird_range (h\<lparr>gameState := c\<rparr>) = bird_range h"
    "bird_range (h\<lparr>gameState := c, highscoreTime := d\<rparr>) = bird_range h" for h a b c d
    by (simp_all add: bird_range_def)
  show ?thesis
    using assms
    by (cases "gameState g")
      (auto simp: loop_def Let_def startscreenCase_def playingCase_def highscoreCase_def
        p r f)
qed

lemma run_bird_range: "bird_range (run inps initGame)"
proof -
  have "bird_range g \<Longrightarrow> bird_range (run inps g)" for g
    by (induction inps arbitrary: g) (simp_all add: loop_bird_range)
  moreover have "bird_range initGame"
    by (simp add: bird_range_def initGame_def SCREEN_HEIGHT_def SCALE_FACTOR_def)
  ultimately show ?thesis .
qed

subsection \<open>The states of the game\<close>

text \<open>
  C8, as stated, fails: a press of the button in the \<open>HIGHSCORE\<close> state does not lead
  back to \<open>STARTSCREEN\<close>. It starts a new game, and the state is \<open>PLAYING\<close>.
\<close>

theorem highscore_press_counterexample:
  "gameState (initGame\<lparr>gameState := HIGHSCORE\<rparr>) = HIGHSCORE \<and>
   pressed \<lparr>currentTime = 40, now = 40, pressed = True,
            jitterRaw = (\<lambda>i. 0), heightRaw = (\<lambda>i. 0)\<rparr> \<and>
   gameState (loop \<lparr>currentTime = 40, now = 40, pressed = True,
                    jitterRaw = (\<lambda>i. 0), heightRaw = (\<lambda>i. 0)\<rparr>
                (initGame\<lparr>gameState := HIGHSCORE\<rparr>)) \<noteq> STARTSCREEN"
  by (simp add: loop_def Let_def highscoreCase_def initGame_def FRAME_TIME_def)

text \<open>
  C8, amended. In the \<open>HIGHSCORE\<close> state a call of \<open>loop\<close> that comes less than
  \<open>FRAME_TIME\<close> after the last frame changes nothing. Otherwise a press of the button
  starts a new game at once: the state is \<open>PLAYING\<close>, with the score 0 and the game not
  over. Without a press the state is \<open>STARTSCREEN\<close> once more than 8000 ms have passed
  since the end of the last game (\<open>gameOverTime\<close>), and stays \<open>HIGHSCORE\<close> until then.
  These are the only ways out of \<open>HIGHSCORE\<close>.
\<close>

theorem highscore_exits:
  assumes "gameState g = HIGHSCORE"
  shows
    "gameState (loop inp g) =
       (if currentTime inp - lastFrameTime g < FRAME_TIME then HIGHSCORE
        else if pressed inp then PLAYING
        else if now inp - gameOverTime g > 8000 then STARTSCREEN
        else HIGHSCORE) \<and>
     (currentTime inp - lastFrameTime g < FRAME_TIME \<longrightarrow> loop inp g = g) \<and>
     (\<not> currentTime inp - lastFrameTime g < FRAME_TIME \<and> pressed inp \<longrightarrow>
        score (loop inp g) = 0 \<and> \<not> gameOver (loop inp g))"
  using assms by (simp add: loop_def Let_def highscoreCase_def)

theorem highscore_exits_witness:
  "gameState (initGame\<lparr>gameState := HIGHSCORE, gameOverTime := 1000, lastFrameTime := 9000\<rparr>)
     = HIGHSCORE \<and>
   gameState (loop \<lparr>currentTime = 9040, now = 9040, pressed = False,
                    jitterRaw = (\<lambda>i. 0), heightRaw = (\<lambda>i. 0)\<rparr>
     (initGame\<lparr>gameState := HIGHSCORE, gameOverTime := 1000, lastFrameTime := 9000\<rparr>))
     = STARTSCREEN \<and>
   gameState (loop \<lparr>currentTime = 9040, now = 9040, pressed = True,
                    jitterRaw = (\<lambda>i. 0), heightRaw = (\<lambda>i. 0)\<rparr>
     (initGame\<lparr>gameState := HIGHSCORE, gameOverTime := 1000, lastFrameTime := 9000\<rparr>))
     = PLAYING \<and>
   gameState (loop \<lparr>currentTime = 9040, now = 9000, pressed = False,
                    jitterRaw = (\<lambda>i. 0), heightRaw = (\<lambda>i. 0)\<rparr>
     (initGame\<lparr>gameState := HIGHSCORE, gameOverTime := 1000, lastFrameTime := 9000\<rparr>))
     = HIGHSCORE \<and>
   loop \<lparr>currentTime = 9039, now = 9039, pressed = True,
         jitterRaw = (\<lambda>i. 0), heightRaw = (\<lambda>i. 0)\<rparr>
     (initGame\<lparr>gameState := HIGHSCORE, gameOverTime := 1000, lastFrameTime := 9000\<rparr>) =
     initGame\<lparr>gameState := HIGHSCORE, gameOverTime := 1000, lastFrameTime := 9000\<rparr>"
proof -
  let ?g = "initGame\<lparr>gameState := HIGHSCORE, gameOverTime := 1000, lastFrameTime := 9000\<rparr>"
  have h: "gameState ?g = HIGHSCORE"
    by simp
  from highscore_exits [OF h,
      of "\<lparr>currentTime = 9040, now = 9040, pressed = False,
           jitterRaw = (\<lambda>i. 0), heightRaw = (\<lambda>i. 0)\<rparr>"]
    highscore_exits [OF h,
      of "\<lparr>currentTime = 9040, now = 9040, pressed = True,
           jitterRaw = (\<lambda>i. 0), heightRaw = (\<lambda>i. 0)\<rparr>"]
    highscore_exits [OF h,
      of "\<lparr>currentTime = 9040, now = 9000, pressed = False,
           jitterRaw = (\<lambda>i. 0), heightRaw = (\<lambda>i. 0)\<rparr>"]
    highscore_exits [OF h,
      of "\<lparr>currentTime = 9039, now = 9039, pressed = True,
           jitterRaw = (\<lambda>i. 0), heightRaw = (\<lambda>i. 0)\<rparr>"]
    h
  show ?thesis
    by (simp add: FRAME_TIME_def)
qed

subsection \<open>The end of a run\<close>

lemma run_append: "run (as @ bs) g = run bs (run as g)"
  by (induction as arbitrary: g) simp_all

lemma demoGame_Suc: "demoGame (Suc n) = loop (demoInput (Suc n)) (demoGame n)"
  by (simp add: demoGame_def run_append)

lemma demoGame_155:
  "demoGame 155 =
     \<lparr>birdY = 603, velocity = 50, gameOver = False, score = 1, frameCounter = 155,
      gameOverTime = 0, gameState = PLAYING,
      pipes = [\<lparr>x = 1290, height = 100\<rparr>, \<lparr>x = 180, height = 100\<rparr>, \<lparr>x = 830, height = 100\<rparr>],
      highscores = [0, 0, 0, 0, 0], newHighscoreIndex = - 1, highscoreTime = 0,
      lastFrameTime = 6200\<rparr>"
  by code_simp

lemma demoGame_156:
  "demoGame 156 =
     \<lparr>birdY = 653, velocity = 50, gameOver = True, score = 1, frameCounter = 156,
      gameOverTime = 6240, gameState = PLAYING,
      pipes = [\<lparr>x = 1279, height = 100\<rparr>, \<lparr>x = 169, height = 100\<rparr>, \<lparr>x = 819, height = 100\<rparr>],
      highscores = [1, 1, 0, 0, 0], newHighscoreIndex = 1, highscoreTime = 0,
      lastFrameTime = 6240\<rparr>"
proof -
  have "loop (demoInput 156)
     \<lparr>birdY = 603, velocity = 50, gameOver = False, score = 1, frameCounter = 155,
      gameOverTime = 0, gameState = PLAYING,
      pipes = [\<lparr>x = 1290, height = 100\<rparr>, \<lparr>x = 180, height = 100\<rparr>, \<lparr>x = 830, height = 100\<rparr>],
      highscores = [0, 0, 0, 0, 0], newHighscoreIndex = - 1, highscoreTime = 0,
      lastFrameTime = 6200\<rparr> =
     \<lparr>birdY = 653, velocity = 50, gameOver = True, score = 1, frameCounter = 156,
      gameOverTime = 6240, gameState = PLAYING,
      pipes = [\<lparr>x = 1279, height = 100\<rparr>, \<lparr>x = 169, height = 100\<rparr>, \<lparr>x = 819, height = 100\<rparr>],
      highscores = [1, 1, 0, 0, 0], newHighscoreIndex = 1, highscoreTime = 0,
      lastFrameTime = 6240\<rparr>"
    by code_simp
  moreover have "demoGame 156 = loop (demoInput 156) (demoGame 155)"
    using demoGame_Suc [of 155] by simp
  ultimately show ?thesis
    by (simp only: demoGame_155)
qed

lemma single_submission_155:
  "saveHighscores 1
     \<lparr>birdY = 603, velocity = 50, gameOver = False, score = 1, frameCounter = 155,
      gameOverTime = 0, gameState = PLAYING,
      pipes = [\<lparr>x = 1290, height = 100\<rparr>, \<lparr>x = 180, height = 100\<rparr>, \<lparr>x = 830, height = 100\<rparr>],
      highscores = [0, 0, 0, 0, 0], newHighscoreIndex = - 1, highscoreTime = 0,
      lastFrameTime = 6200\<rparr> =
     \<lparr>birdY = 603, velocity = 50, gameOver = False, score = 1, frameCounter = 155,
      gameOverTime = 0, gameState = PLAYING,
      pipes = [\<lparr>x = 1290, height = 100\<rparr>, \<lparr>x = 180, height = 100\<rparr>, \<lparr>x = 830, height = 100\<rparr>],
      highscores = [1, 0, 0, 0, 0], newHighscoreIndex = 0, highscoreTime = 0,
      lastFrameTime = 6200\<rparr>"
  by code_simp

text \<open>
  What holds of C7 in every state: when \<open>checkCollision\<close> detects a collision, with a
  pipe or with the lower edge of the screen, the game is over and \<open>gameOverTime\<close> is
  the reading of the clock.
\<close>

lemma collidePipe_gameOverTime:
  "gameOverTime (collidePipe t i g) =
     (if spec_hits_pipe (pipes g ! i) (birdY g) then t else gameOverTime g)"
  by (auto simp: collidePipe_def spec_hits_pipe_def spans_overlap_def span_within_def)

lemma checkCollision_marks_over:
  assumes "(\<exists>i<MAX_PIPES. spec_hits_pipe (pipes g ! i) (birdY g)) \<or>
           SCREEN_HEIGHT * SCALE_FACTOR \<le> birdY g"
  shows "gameOver (checkCollision t g) \<and> gameOverTime (checkCollision t g) = t"
proof -
  have "gameOverTime (collisionLoop t 0 g) =
      (if \<exists>i<MAX_PIPES. spec_hits_pipe (pipes g ! i) (birdY g) then t else gameOverTime g)"
    by (simp add: collisionLoop_unroll collidePipe_gameOverTime MAX_PIPES_def less_3_cases)
  with assms have "gameOverTime (checkCollision t g) = t"
    by (auto simp: checkCollision_def Let_def)
  moreover from assms have "gameOver (checkCollision t g)"
    by (auto simp: checkCollision_gameOver)
  ultimately show ?thesis
    by simp
qed

text \<open>
  A second call of \<open>saveHighscores\<close> with the same score does not leave things as the
  first call did: whenever the score is greater than an entry of the list, the index
  of the new entry changes (the score is inserted once more, one slot further down,
  or, below the last slot, the index is reset). \<open>checkCollision\<close> makes these two calls
  when a pipe is hit and the player is below the screen.
\<close>

lemma saveHighscores_index:
  assumes "length (highscores g) = 5"
  shows "newHighscoreIndex (saveHighscores s g) =
     (if \<exists>e\<in>set (highscores g). e < s then int (firstSlot s (highscores g)) else - 1)"
  using saveHighscores_insert [OF assms, of s] saveHighscores_noop [OF _ assms, of s]
  by (cases "\<exists>e\<in>set (highscores g). e < s") simp_all

lemma saveHighscores_not_idempotent:
  assumes len: "length (highscores g) = 5" and better: "\<exists>e\<in>set (highscores g). e < s"
  shows "newHighscoreIndex (saveHighscores s (saveHighscores s g)) \<noteq>
         newHighscoreIndex (saveHighscores s g)"
proof -
  let ?hs = "highscores g" and ?g1 = "saveHighscores s g"
  let ?k = "firstSlot s ?hs"
  have k: "?k < 5"
    using firstSlot_props(1) [OF better] len by simp
  have hs1: "highscores ?g1 = take ?k ?hs @ s # butlast (drop ?k ?hs)"
    by (simp add: saveHighscores_insert [OF len better])
  have len1: "length (highscores ?g1) = 5"
    using len by (rule saveHighscores_length)
  have at_k: "highscores ?g1 ! ?k = s"
    using k len by (simp add: hs1 nth_append)
  have first: "newHighscoreIndex ?g1 = int ?k"
    using better by (simp add: saveHighscores_index [OF len])
  show ?thesis
  proof (cases "\<exists>e\<in>set (highscores ?g1). e < s")
    case True
    from firstSlot_props(2) [OF True] at_k
    have "firstSlot s (highscores ?g1) \<noteq> ?k"
      by auto
    with True first show ?thesis
      by (simp add: saveHighscores_index [OF len1])
  next
    case False
    with first show ?thesis
      by (simp add: saveHighscores_index [OF len1])
  qed
qed

lemma checkCollision_two_detections:
  assumes "spec_hits_pipe (pipes g ! 1) (birdY g)" and "\<not> spec_hits_pipe (pipes g ! 0) (birdY g)"
    and "\<not> spec_hits_pipe (pipes g ! 2) (birdY g)" and "SCREEN_HEIGHT * SCALE_FACTOR \<le> birdY g"
  shows "checkCollision t g =
     saveHighscores (score g)
       (saveHighscores (score g) (g\<lparr>gameOver := True, gameOverTime := t\<rparr>))"
proof -
  have c: "collidePipe t 0 g = g"
    "collidePipe t 1 g = saveHighscores (score g) (g\<lparr>gameOver := True, gameOverTime := t\<rparr>)"
    "\<And>h. pipes h = pipes g \<Longrightarrow> birdY h = birdY g \<Longrightarrow> collidePipe t 2 h = h"
    using assms(1-3)
    by (auto simp: collidePipe_def spec_hits_pipe_def spans_overlap_def span_within_def)
  let ?g1 = "saveHighscores (score g) (g\<lparr>gameOver := True, gameOverTime := t\<rparr>)"
  have "collidePipe t 2 ?g1 = ?g1"
    by (rule c(3)) simp_all
  then have cl: "collisionLoop t 0 g = ?g1"
    by (simp only: collisionLoop_unroll c(1) c(2))
  have e: "?g1\<lparr>gameOver := True, gameOverTime := t\<rparr> = ?g1"
    by (rule game.equality) simp_all
  have "checkCollision t g = saveHighscores (score ?g1) (?g1\<lparr>gameOver := True, gameOverTime := t\<rparr>)"
    using assms(4) by (simp add: checkCollision_def Let_def cl)
  also have "\<dots> = saveHighscores (score g) ?g1"
    unfolding e by simp
  finally show ?thesis .
qed

text \<open>
  C7 fails in the sketch. \<open>checkCollision\<close> calls \<open>saveHighscores\<close> once for every pipe
  that is hit and once more when the player is below the screen, and a second call
  with the same score inserts the score again, one slot further down. In the game for
  testing the player has passed one pipe and is still in the game after 155 calls of
  \<open>loop\<close>. At the 156th call the player reaches the lower edge of the screen in the
  same frame in which the next pipe reaches the player's column: both tests fire, the
  score 1 is submitted twice and the list is \<open>[1, 1, 0, 0, 0]\<close> with the index 1, where
  one submission gives \<open>[1, 0, 0, 0, 0]\<close> with the index 0.
\<close>

theorem double_submission:
  "\<not> gameOver (demoGame 155) \<and> score (demoGame 155) = 1 \<and>
   highscores (demoGame 155) = [0, 0, 0, 0, 0] \<and>
   spec_hits_pipe (pipes (demoGame 156) ! 1) (birdY (demoGame 156)) \<and>
   SCREEN_HEIGHT * SCALE_FACTOR \<le> birdY (demoGame 156) \<and>
   gameOver (demoGame 156) \<and> gameOverTime (demoGame 156) = 6240 \<and>
   score (demoGame 156) = 1 \<and>
   highscores (demoGame 156) = [1, 1, 0, 0, 0] \<and> newHighscoreIndex (demoGame 156) = 1 \<and>
   highscores (saveHighscores 1 (demoGame 155)) = [1, 0, 0, 0, 0] \<and>
   newHighscoreIndex (saveHighscores 1 (demoGame 155)) = 0"
  by (simp add: demoGame_155 demoGame_156 single_submission_155 spec_hits_pipe_def
      spans_overlap_def span_within_def SCREEN_HEIGHT_def SCALE_FACTOR_def PIPE_WIDTH_def
      PIPE_GAP_def)

end
